theory Spec2Isabelle
  imports Main "HOL-Library.AList"
begin

section \<open>The worker: \<open>decrement\<close>\<close>

text \<open>
  \<^verbatim>\<open>
  def decrement(start_num, pipe_out):
      while start_num > 0:
          start_num = start_num -1
          pipe_out.send(start_num)
          time.sleep(0.5) #seconds
      pipe_out.send(0)
  \<close>
  The worker has no result; all it does is act on the outside: it sends on its end of the
  pipe and it sleeps. Its run is therefore the list of these actions, in program order.
  \<open>start_num\<close> is a Python integer, hence an \<open>int\<close> (the loop guard also admits negative
  values, for which the body never runs).
\<close>

datatype worker_event = Send int | Sleep_half_second

function decrement_loop :: "int \<Rightarrow> worker_event list" where
  "decrement_loop start_num =
     (if start_num > 0
      then Send (start_num - 1) # Sleep_half_second # decrement_loop (start_num - 1)
      else [])"
  by pat_completeness auto
termination
  by (relation "measure nat") auto

declare decrement_loop.simps [simp del]

definition decrement :: "int \<Rightarrow> worker_event list" where
  "decrement start_num = decrement_loop start_num @ [Send 0]"

text \<open>The values that reach the pipe, in the order of sending.\<close>

fun sent :: "worker_event list \<Rightarrow> int list" where
  "sent [] = []"
| "sent (Send v # es) = v # sent es"
| "sent (Sleep_half_second # es) = sent es"

text \<open>
  The output the specification's testable property 1 describes, word for word: exactly
  \<open>start_num\<close> values, all of them positive, pairwise distinct and strictly decreasing,
  followed by one terminal \<open>0\<close> and nothing else, so that \<open>0\<close> occurs exactly once.
\<close>

definition spec_worker_output :: "int \<Rightarrow> int list \<Rightarrow> bool" where
  "spec_worker_output start_num xs =
     (xs \<noteq> [] \<and> last xs = 0 \<and> count_list xs 0 = 1 \<and>
      int (length (butlast xs)) = start_num \<and>
      list_all (\<lambda>v. 0 < v) (butlast xs) \<and>
      distinct (butlast xs) \<and> sorted_wrt (\<lambda>a b. b < a) (butlast xs))"

section \<open>Python objects, the toolkit and the processes\<close>

text \<open>
  A \<open>Window\<close> is a Python object: a dictionary from attribute names to values, kept as an
  association list. Reading an attribute that was never assigned raises
  \<open>AttributeError\<close>. The values are references to the objects the program creates: the
  \<open>Tk\<close> root, widgets, the \<open>StringVar\<close>, one end of a pipe, a process handle.
\<close>

datatype pyval = VNone | VTk | VWidget | VStringVar | VConnection nat | VProcess nat

datatype exn = AttributeError | EOFError

text \<open>The two bound methods handed to \<open>after\<close>: \<open>self.update\<close> and
  \<open>self.clear_countdown_label\<close>.\<close>

datatype callback = Update | Clear_countdown_label

datatype proc_status = Alive | Exited | Killed

text \<open>
  A pipe, seen from the end the GUI keeps: the values sent and not yet received, oldest
  first, and whether the sending end is gone (its process exited or was killed), after
  which an empty pipe is at end of file.
\<close>

record pipe =
  queue :: "int list"
  writer_gone :: bool

text \<open>
  A started \<open>multiprocessing.Process(target=decrement, args=(n, process_pipe))\<close>: the
  actions \<open>decrement n\<close> has still to perform, the pipe it sends on, whether it runs, and
  whether \<open>join()\<close> was called on its handle.
\<close>

record process =
  pending :: "worker_event list"
  pipe_out :: nat
  status :: proc_status
  joined :: bool

text \<open>
  The whole state: the attributes of the \<open>Window\<close> instance, the pipes and processes
  created so far (a reference is an index), the text of the \<open>StringVar\<close> shown by the
  countdown label, the callbacks registered with \<open>after\<close> so far (delay in
  milliseconds, in the order of registration), and whether the root window was destroyed.
\<close>

record state =
  attrs :: "(string \<times> pyval) list"
  pipes :: "pipe list"
  procs :: "process list"
  var_text :: string
  after_queue :: "(nat \<times> callback) list"
  destroyed :: bool

type_synonym stmt = "state \<Rightarrow> exn option \<times> state"

text \<open>Statements in sequence: an exception ends the block and keeps the state reached.\<close>

fun block :: "stmt list \<Rightarrow> stmt" where
  "block [] s = (None, s)"
| "block (f # fs) s = (case f s of (None, s') \<Rightarrow> block fs s' | (Some e, s') \<Rightarrow> (Some e, s'))"

definition getattr :: "state \<Rightarrow> string \<Rightarrow> exn + pyval" where
  "getattr s name = (case map_of (attrs s) name of None \<Rightarrow> Inl AttributeError | Some v \<Rightarrow> Inr v)"

definition setattr :: "string \<Rightarrow> pyval \<Rightarrow> state \<Rightarrow> state" where
  "setattr name v s = s\<lparr>attrs := AList.update name v (attrs s)\<rparr>"

text \<open>\<open>self.<target>.after(ms, cb)\<close>: every Tk object and widget has \<open>after\<close>.\<close>

definition call_after :: "string \<Rightarrow> nat \<Rightarrow> callback \<Rightarrow> stmt" where
  "call_after target ms cb s =
     (case getattr s target of
        Inl e \<Rightarrow> (Some e, s)
      | Inr v \<Rightarrow>
          if v = VTk \<or> v = VWidget
          then (None, s\<lparr>after_queue := after_queue s @ [(ms, cb)]\<rparr>)
          else (Some AttributeError, s))"

text \<open>\<open>self.<target>.set(text)\<close> on a \<open>StringVar\<close>.\<close>

definition call_set :: "string \<Rightarrow> string \<Rightarrow> stmt" where
  "call_set target text s =
     (case getattr s target of
        Inl e \<Rightarrow> (Some e, s)
      | Inr v \<Rightarrow>
          if v = VStringVar then (None, s\<lparr>var_text := text\<rparr>)
          else (Some AttributeError, s))"

text \<open>\<open>self.<target>.destroy()\<close>: on the root it destroys the window; a widget's own
  \<open>destroy\<close> leaves the window.\<close>

definition call_destroy :: "string \<Rightarrow> stmt" where
  "call_destroy target s =
     (case getattr s target of
        Inl e \<Rightarrow> (Some e, s)
      | Inr v \<Rightarrow>
          if v = VTk then (None, s\<lparr>destroyed := True\<rparr>)
          else if v = VWidget then (None, s)
          else (Some AttributeError, s))"

subsection \<open>Processes\<close>

text \<open>
  One action of the worker \<open>p\<close>, taken by the operating system whenever it likes: a send
  appends to the worker's pipe, a sleep passes, and with nothing left the process exits
  and its end of the pipe closes. A process that is not alive does nothing.
\<close>

definition push :: "nat \<Rightarrow> int \<Rightarrow> state \<Rightarrow> state" where
  "push c v s = s\<lparr>pipes := (pipes s)[c := (pipes s ! c)\<lparr>queue := queue (pipes s ! c) @ [v]\<rparr>]\<rparr>"

definition close_writer :: "nat \<Rightarrow> state \<Rightarrow> state" where
  "close_writer c s = s\<lparr>pipes := (pipes s)[c := (pipes s ! c)\<lparr>writer_gone := True\<rparr>]\<rparr>"

definition set_proc :: "nat \<Rightarrow> process \<Rightarrow> state \<Rightarrow> state" where
  "set_proc p pr s = s\<lparr>procs := (procs s)[p := pr]\<rparr>"

definition worker_step :: "nat \<Rightarrow> state \<Rightarrow> state" where
  "worker_step p s =
     (if p < length (procs s) \<and> status (procs s ! p) = Alive then
        (let pr = procs s ! p in
         case pending pr of
           [] \<Rightarrow> close_writer (pipe_out pr) (set_proc p (pr\<lparr>status := Exited\<rparr>) s)
         | Send v # es \<Rightarrow> push (pipe_out pr) v (set_proc p (pr\<lparr>pending := es\<rparr>) s)
         | Sleep_half_second # es \<Rightarrow> set_proc p (pr\<lparr>pending := es\<rparr>) s)
      else s)"

text \<open>
  \<open>join()\<close> blocks until the process has ended: an alive worker performs all it has left
  (the values it still sends reach its pipe) and exits; then the handle is joined.
\<close>

definition run_to_exit :: "nat \<Rightarrow> state \<Rightarrow> state" where
  "run_to_exit p s =
     (let pr = procs s ! p; c = pipe_out pr in
      close_writer c
        (s\<lparr>pipes := (pipes s)[c := (pipes s ! c)\<lparr>queue := queue (pipes s ! c) @ sent (pending pr)\<rparr>],
           procs := (procs s)[p := pr\<lparr>pending := [], status := Exited\<rparr>]\<rparr>))"

definition process_join :: "nat \<Rightarrow> state \<Rightarrow> state" where
  "process_join p s =
     (let s' = (if status (procs s ! p) = Alive then run_to_exit p s else s)
      in set_proc p ((procs s' ! p)\<lparr>joined := True\<rparr>) s')"

text \<open>\<open>kill()\<close>: the process stops where it is and its end of the pipe closes.\<close>

definition process_kill :: "nat \<Rightarrow> state \<Rightarrow> state" where
  "process_kill p s =
     close_writer (pipe_out (procs s ! p)) (set_proc p ((procs s ! p)\<lparr>status := Killed\<rparr>) s)"

definition is_alive :: "nat \<Rightarrow> state \<Rightarrow> bool" where
  "is_alive p s = (status (procs s ! p) = Alive)"

text \<open>\<open>self.countdown_thread.join()\<close>.\<close>

definition call_join :: "string \<Rightarrow> stmt" where
  "call_join target s =
     (case getattr s target of
        Inl e \<Rightarrow> (Some e, s)
      | Inr (VProcess p) \<Rightarrow> (None, process_join p s)
      | Inr _ \<Rightarrow> (Some AttributeError, s))"

subsection \<open>Formatting an integer: \<open>f"{num}"\<close>\<close>

definition digit_char :: "nat \<Rightarrow> char" where
  "digit_char d = ''0123456789'' ! d"

function str_nat :: "nat \<Rightarrow> string" where
  "str_nat n = (if n < 10 then [digit_char n] else str_nat (n div 10) @ [digit_char (n mod 10)])"
  by pat_completeness auto
termination
  by (relation "measure id") auto

declare str_nat.simps [simp del]

definition format_int :: "int \<Rightarrow> string" where
  "format_int num = (if num < 0 then CHR ''-'' # str_nat (nat (- num)) else str_nat (nat num))"

text \<open>Reading a string of decimal digits, most significant first.\<close>

definition digit_value :: "char \<Rightarrow> nat" where
  "digit_value ch = of_char ch - 48"

definition is_digit :: "char \<Rightarrow> bool" where
  "is_digit ch = (48 \<le> (of_char ch :: nat) \<and> (of_char ch :: nat) \<le> 57)"

definition decimal_value :: "string \<Rightarrow> nat" where
  "decimal_value cs = foldl (\<lambda>acc ch. 10 * acc + digit_value ch) 0 cs"

section \<open>The coordinator: class \<open>Window\<close>\<close>

text \<open>
  \<open>root = tk.Tk(); mainApp = Window(root)\<close>. The constructor assigns \<open>root\<close>, \<open>label\<close>,
  \<open>button\<close>, \<open>countdown_var\<close> (a fresh \<open>StringVar\<close>, whose text is empty),
  \<open>countdown_label\<close> and \<open>countdown_thread = None\<close>, in this order, and nothing else; it
  does not call the constructor of \<open>tk.Frame\<close>.
\<close>

definition fresh_state :: state where
  "fresh_state =
     \<lparr>attrs = [], pipes = [], procs = [], var_text = '''', after_queue = [], destroyed = False\<rparr>"

definition Window_init :: state where
  "Window_init =
     (setattr ''countdown_thread'' VNone
     (setattr ''countdown_label'' VWidget
     (setattr ''countdown_var'' VStringVar
     (setattr ''button'' VWidget
     (setattr ''label'' VWidget
     (setattr ''root'' VTk fresh_state))))))"

text \<open>
  \<^verbatim>\<open>
  def do_countdown(self):
      self.gui_pipe, process_pipe = multiprocessing.Pipe()
      self.countdown_thread = multiprocessing.Process(target=decrement, args=(10, process_pipe,))
      self.countdown_thread.start()
      self.parent.after(100, self.update)
  \<close>
  \<open>Pipe()\<close> makes a new pipe, \<open>Process(...)\<close> followed by \<open>start()\<close> a new running
  process that executes \<open>decrement 10\<close> on the pipe; the new references are the next free
  indices.
\<close>

definition started_worker :: "int \<Rightarrow> nat \<Rightarrow> process" where
  "started_worker start_num process_pipe =
     \<lparr>pending = decrement start_num, pipe_out = process_pipe, status = Alive, joined = False\<rparr>"

definition Window_do_countdown :: stmt where
  "Window_do_countdown s =
     (let process_pipe = length (pipes s);
          s1 = setattr ''gui_pipe'' (VConnection process_pipe)
                 (s\<lparr>pipes := pipes s @ [\<lparr>queue = [], writer_gone = False\<rparr>]\<rparr>);
          s2 = setattr ''countdown_thread'' (VProcess (length (procs s1)))
                 (s1\<lparr>procs := procs s1 @ [started_worker 10 process_pipe]\<rparr>)
      in call_after ''parent'' 100 Update s2)"

text \<open>
  \<^verbatim>\<open>
  def update(self):
      if self.gui_pipe.poll(1):
          num = self.gui_pipe.recv()
          if num == 0:
              self.countdown_thread.join()
              self.countdown_var.set("End!")
              self.root.after(1000, self.clear_countdown_label)
          else:
              self.countdown_var.set(f"{num}")
              self.root.after(100, self.update)
  \<close>
  \<open>poll(1)\<close> is true when a value is waiting or the pipe is at end of file; in the second
  case \<open>recv()\<close> raises \<open>EOFError\<close>. With an empty pipe whose sender lives, \<open>poll(1)\<close> is
  false after its wait and the method returns: the \<^verbatim>\<open>if\<close> has no \<^verbatim>\<open>else\<close>.
\<close>

definition Window_update :: stmt where
  "Window_update s =
     (case getattr s ''gui_pipe'' of
        Inl e \<Rightarrow> (Some e, s)
      | Inr (VConnection c) \<Rightarrow>
          (case queue (pipes s ! c) of
             [] \<Rightarrow> if writer_gone (pipes s ! c) then (Some EOFError, s) else (None, s)
           | num # rest \<Rightarrow>
               (let s' = s\<lparr>pipes := (pipes s)[c := (pipes s ! c)\<lparr>queue := rest\<rparr>]\<rparr> in
                if num = 0
                then block [call_join ''countdown_thread'',
                            call_set ''countdown_var'' ''End!'',
                            call_after ''root'' 1000 Clear_countdown_label] s'
                else block [call_set ''countdown_var'' (format_int num),
                            call_after ''root'' 100 Update] s'))
      | Inr _ \<Rightarrow> (Some AttributeError, s))"

text \<open>
  \<^verbatim>\<open>
  def clear_countdown_label(self):
      self.countdown_var.set("")
  \<close>
\<close>

definition Window_clear_countdown_label :: stmt where
  "Window_clear_countdown_label = call_set ''countdown_var'' ''''"

text \<open>
  \<^verbatim>\<open>
  def on_close(self):
      if self.countdown_thread != None and self.countdown_thread.is_alive():
          self.countdown_thread.kill()
      self.root.destroy()
  \<close>
\<close>

definition kill_if_alive :: stmt where
  "kill_if_alive s =
     (case getattr s ''countdown_thread'' of
        Inl e \<Rightarrow> (Some e, s)
      | Inr VNone \<Rightarrow> (None, s)
      | Inr (VProcess p) \<Rightarrow> (None, if is_alive p s then process_kill p s else s)
      | Inr _ \<Rightarrow> (Some AttributeError, s))"

definition Window_on_close :: stmt where
  "Window_on_close = block [kill_if_alive, call_destroy ''root'']"

subsection \<open>The running program\<close>

text \<open>
  What can happen to the state: the button is clicked, a timer fires one of the two
  callbacks, the window is closed, or a worker performs an action. Tk reports an
  exception raised by a callback and carries on, so the state the callback reached stays.
\<close>

datatype event = Click | Fire callback | Close | Worker nat

fun fire :: "event \<Rightarrow> state \<Rightarrow> state" where
  "fire Click s = snd (Window_do_countdown s)"
| "fire (Fire Update) s = snd (Window_update s)"
| "fire (Fire Clear_countdown_label) s = snd (Window_clear_countdown_label s)"
| "fire Close s = snd (Window_on_close s)"
| "fire (Worker p) s = worker_step p s"

definition run :: "event list \<Rightarrow> state \<Rightarrow> state" where
  "run evs s = foldl (\<lambda>s ev. fire ev s) s evs"

text \<open>
  A countdown up to the moment the loop's \<open>0\<close> waits in the pipe: the click, then nine
  times a send, a sleep and a poll (showing \<open>9\<close> down to \<open>1\<close>), then the send of \<open>0\<close>.
\<close>

definition zero_waiting :: "event list" where
  "zero_waiting =
     Click # concat (replicate 9 [Worker 0, Worker 0, Fire Update]) @ [Worker 0]"

text \<open>
  The invariant of a \<open>Window\<close> and its surroundings. No attribute \<open>parent\<close> exists. Before
  the first countdown \<open>gui_pipe\<close> is missing and \<open>countdown_thread\<close> is \<open>None\<close>; from then on
  they hold the newest pipe and the process sending on it. Every process sends on an
  existing pipe.
\<close>

definition wf :: "state \<Rightarrow> bool" where
  "wf s =
     (map_of (attrs s) ''root'' = Some VTk \<and>
      map_of (attrs s) ''countdown_var'' = Some VStringVar \<and>
      map_of (attrs s) ''parent'' = None \<and>
      (case map_of (attrs s) ''gui_pipe'' of
         None \<Rightarrow> map_of (attrs s) ''countdown_thread'' = Some VNone
       | Some (VConnection c) \<Rightarrow>
           (case map_of (attrs s) ''countdown_thread'' of
              Some (VProcess p) \<Rightarrow>
                c < length (pipes s) \<and> p < length (procs s) \<and> pipe_out (procs s ! p) = c
            | _ \<Rightarrow> False)
       | _ \<Rightarrow> False) \<and>
      list_all (\<lambda>pr. pipe_out pr < length (pipes s)) (procs s))"

text \<open>Only values a worker can send are in transit: none is negative.\<close>

definition nonneg_traffic :: "state \<Rightarrow> bool" where
  "nonneg_traffic s =
     (list_all (\<lambda>pi. list_all (\<lambda>v. 0 \<le> v) (queue pi)) (pipes s) \<and>
      list_all (\<lambda>pr. list_all (\<lambda>v. 0 \<le> v) (sent (pending pr))) (procs s))"

text \<open>The texts the countdown label may show.\<close>

definition displayable :: "string \<Rightarrow> bool" where
  "displayable txt = (txt = '''' \<or> txt = ''End!'' \<or> (\<exists>v. 0 < v \<and> txt = format_int v))"

section \<open>What the worker sends\<close>

lemma sent_append: "sent (es @ fs) = sent es @ sent fs"
  by (induction es rule: sent.induct) simp_all

text \<open>The loop sends \<open>n - 1\<close>, \<open>n - 2\<close>, and so on down to \<open>0\<close>: once per turn.\<close>

lemma sent_decrement_loop:
  "sent (decrement_loop n) = map (\<lambda>i. n - 1 - int i) [0..<nat n]"
proof (induction n rule: decrement_loop.induct)
  case (1 n)
  show ?case
  proof (cases "0 < n")
    case True
    then obtain k where k: "nat n = Suc k" by (cases "nat n") auto
    then have k': "nat (n - 1) = k" by linarith
    have "sent (decrement_loop n) = (n - 1) # sent (decrement_loop (n - 1))"
      using True by (subst decrement_loop.simps) simp
    also have "\<dots> = (n - 1) # map (\<lambda>i. n - 1 - 1 - int i) [0..<k]"
      using 1 True k' by simp
    also have "\<dots> = map (\<lambda>i. n - 1 - int i) [0..<nat n]"
      using k by (simp add: upt_conv_Cons map_Suc_upt [symmetric] del: upt_Suc)
    finally show ?thesis .
  next
    case False
    then show ?thesis by (subst decrement_loop.simps) simp
  qed
qed

lemma sent_decrement:
  "sent (decrement n) = map (\<lambda>i. n - 1 - int i) [0..<nat n] @ [0]"
  by (simp add: decrement_def sent_append sent_decrement_loop)

lemma countdown_distinct: "distinct (map (\<lambda>i. n - 1 - int i) [0..<k])"
  by (simp add: distinct_map inj_on_def)

lemma countdown_decreasing:
  "sorted_wrt (\<lambda>a b. b < a) (map (\<lambda>i. n - 1 - int i) [0..<k])"
  by (simp add: sorted_wrt_map sorted_wrt_iff_nth_less)

lemma countdown_nonneg: "list_all (\<lambda>v. 0 \<le> v) (map (\<lambda>i. n - 1 - int i) [0..<nat n])"
  by (auto simp: list_all_iff)

lemma countdown_positives_upto:
  "k \<le> nat n \<Longrightarrow>
   filter (\<lambda>v. 0 < v) (map (\<lambda>i. n - 1 - int i) [0..<k]) =
   map (\<lambda>i. n - 1 - int i) [0..<min k (nat n - 1)]"
proof (induction k)
  case 0
  then show ?case by simp
next
  case (Suc k)
  then have IH: "filter (\<lambda>v. 0 < v) (map (\<lambda>i. n - 1 - int i) [0..<k]) =
      map (\<lambda>i. n - 1 - int i) [0..<min k (nat n - 1)]"
    by simp
  show ?case
  proof (cases "Suc k = nat n")
    case True
    then have "min k (nat n - 1) = k" "min (Suc k) (nat n - 1) = k" "n - 1 - int k = 0"
      by auto
    with IH show ?thesis by simp
  next
    case False
    with Suc.prems have "Suc k < nat n" by simp
    then have "min k (nat n - 1) = k" "min (Suc k) (nat n - 1) = Suc k" "0 < n - 1 - int k"
      by auto
    with IH show ?thesis by simp
  qed
qed

lemma countdown_zeros_upto:
  "k \<le> nat n \<Longrightarrow>
   count_list (map (\<lambda>i. n - 1 - int i) [0..<k]) 0 = (if k = nat n \<and> 0 < n then 1 else 0)"
proof (induction k)
  case 0
  then show ?case by auto
next
  case (Suc k)
  then have IH: "count_list (map (\<lambda>i. n - 1 - int i) [0..<k]) 0 = 0" by simp
  have "count_list (map (\<lambda>i. n - 1 - int i) [0..<Suc k]) 0 =
        count_list (map (\<lambda>i. n - 1 - int i) [0..<k]) 0 + (if n - 1 - int k = 0 then 1 else 0)"
    by simp
  also have "\<dots> = (if Suc k = nat n \<and> 0 < n then 1 else 0)"
    using Suc.prems IH by auto
  finally show ?case .
qed

text \<open>
  Claim C3, as the specification states it: for every \<open>start_num \<ge> 0\<close> the worker sends
  exactly \<open>start_num\<close> distinct positive values in strictly decreasing order, followed by
  exactly one terminal \<open>0\<close>. Started with \<open>3\<close> the worker sends \<open>2, 1, 0, 0\<close>: two positive
  values and two zeros, so the statement fails there.
\<close>

theorem decrement_three_not_spec_output: "\<not> spec_worker_output 3 (sent (decrement 3))"
  by code_simp

text \<open>
  Claim C3, amended: for every \<open>start_num \<ge> 0\<close> the worker sends exactly \<open>start_num\<close>
  distinct values in strictly decreasing order, namely \<open>start_num - 1\<close> down to \<open>0\<close>, none
  of them negative, followed by one more \<open>0\<close> as the final message. The number of
  positive values sent is \<open>max 0 (start_num - 1)\<close>: \<open>start_num - 1\<close> when \<open>start_num \<ge> 1\<close>
  and none when \<open>start_num = 0\<close>; \<open>0\<close> is sent twice when \<open>start_num \<ge> 1\<close> and once when
  \<open>start_num = 0\<close>.
\<close>

theorem decrement_sends_countdown_then_zero:
  assumes "0 \<le> start_num"
  shows "last (sent (decrement start_num)) = 0 \<and>
    butlast (sent (decrement start_num)) = map (\<lambda>i. start_num - 1 - int i) [0..<nat start_num] \<and>
    int (length (butlast (sent (decrement start_num)))) = start_num \<and>
    list_all (\<lambda>v. 0 \<le> v) (butlast (sent (decrement start_num))) \<and>
    distinct (butlast (sent (decrement start_num))) \<and>
    sorted_wrt (\<lambda>a b. b < a) (butlast (sent (decrement start_num))) \<and>
    int (length (filter (\<lambda>v. 0 < v) (sent (decrement start_num)))) =
      max 0 (start_num - 1) \<and>
    count_list (sent (decrement start_num)) 0 = (if start_num = 0 then 1 else 2)"
proof -
  let ?ps = "map (\<lambda>i. start_num - 1 - int i) [0..<nat start_num]"
  have xs: "sent (decrement start_num) = ?ps @ [0]" by (rule sent_decrement)
  have pos: "filter (\<lambda>v. 0 < v) ?ps = map (\<lambda>i. start_num - 1 - int i) [0..<nat start_num - 1]"
    using countdown_positives_upto [of "nat start_num" start_num] by simp
  have zer: "count_list ?ps 0 = (if 0 < start_num then 1 else 0)"
    using countdown_zeros_upto [of "nat start_num" start_num] by simp
  have "last (?ps @ [0]) = 0" by simp
  moreover have "butlast (?ps @ [0]) = ?ps" by simp
  moreover have "int (length ?ps) = start_num" using assms by simp
  moreover have "list_all (\<lambda>v. 0 \<le> v) ?ps" by (rule countdown_nonneg)
  moreover have "distinct ?ps" by (rule countdown_distinct)
  moreover have "sorted_wrt (\<lambda>a b. b < a) ?ps" by (rule countdown_decreasing)
  moreover have "int (length (filter (\<lambda>v. 0 < v) (?ps @ [0]))) = max 0 (start_num - 1)"
    using pos assms by simp
  moreover have "count_list (?ps @ [0]) 0 = (if start_num = 0 then 1 else 2)"
    using zer assms by auto
  ultimately show ?thesis unfolding xs by simp
qed

theorem decrement_sends_countdown_then_zero_witness:
  "(0::int) \<le> 3 \<and> last (sent (decrement 3)) = 0 \<and>
   butlast (sent (decrement 3)) = [2, 1, 0] \<and>
   int (length (filter (\<lambda>v. 0 < v) (sent (decrement 3)))) = 2 \<and>
   count_list (sent (decrement 3)) 0 = 2 \<and>
   (0::int) \<le> 0 \<and> butlast (sent (decrement 0)) = [] \<and>
   int (length (filter (\<lambda>v. 0 < v) (sent (decrement 0)))) = 0 \<and>
   count_list (sent (decrement 0)) 0 = 1"
proof -
  have h: "(0::int) \<le> 3" and h0: "(0::int) \<le> 0" by simp_all
  have m: "map (\<lambda>i. 3 - 1 - int i) [0..<nat 3] = [2, 1, 0]" by code_simp
  have three: "last (sent (decrement 3)) = 0 \<and>
     butlast (sent (decrement 3)) = [2, 1, 0] \<and>
     int (length (filter (\<lambda>v. 0 < v) (sent (decrement 3)))) = 2 \<and>
     count_list (sent (decrement 3)) 0 = 2"
    using decrement_sends_countdown_then_zero [OF h] unfolding m by simp
  have zero: "butlast (sent (decrement 0)) = [] \<and>
     int (length (filter (\<lambda>v. 0 < v) (sent (decrement 0)))) = 0 \<and>
     count_list (sent (decrement 0)) 0 = 1"
    using decrement_sends_countdown_then_zero [OF h0] by simp
  from three zero show ?thesis by simp
qed

text \<open>
  Claim C4: started with \<open>3\<close> the loop sends \<open>2, 1, 0\<close>, one value per turn, and the send
  after the loop adds one more \<open>0\<close>, so the pipe carries \<open>2, 1, 0, 0\<close>; started with \<open>0\<close>
  the loop body never runs (no send, no sleep) and only the closing \<open>0\<close> is sent.
\<close>

theorem decrement_scenarios:
  "decrement_loop 3 =
     [Send 2, Sleep_half_second, Send 1, Sleep_half_second, Send 0, Sleep_half_second] \<and>
   decrement 3 = decrement_loop 3 @ [Send 0] \<and>
   sent (decrement 3) = [2, 1, 0, 0] \<and>
   decrement_loop 0 = [] \<and>
   decrement 0 = [Send 0] \<and>
   sent (decrement 0) = [0]"
  by (simp add: decrement_def decrement_loop.simps)

section \<open>Formatting\<close>

lemma digit_cases: "d < 10 \<Longrightarrow> d = 0 \<or> d = 1 \<or> d = 2 \<or> d = 3 \<or> d = 4 \<or> d = 5 \<or> d = 6 \<or> d = 7 \<or> d = 8 \<or> d = (9::nat)"
  by arith

lemma digit_char_value: "d < 10 \<Longrightarrow> digit_value (digit_char d) = d"
  using digit_cases [of d] by (auto simp: digit_value_def digit_char_def)

lemma digit_char_is_digit: "d < 10 \<Longrightarrow> is_digit (digit_char d)"
  using digit_cases [of d] by (auto simp: is_digit_def digit_char_def)

lemma digit_char_zero: "d < 10 \<Longrightarrow> digit_char d = CHR ''0'' \<longleftrightarrow> d = 0"
  using digit_cases [of d] by (auto simp: digit_char_def)

lemma str_nat_nonempty: "str_nat n \<noteq> []"
  by (subst str_nat.simps) simp

lemma str_nat_digits: "list_all is_digit (str_nat n)"
proof (induction n rule: str_nat.induct)
  case (1 n)
  show ?case
  proof (cases "n < 10")
    case True
    then show ?thesis by (subst str_nat.simps) (simp add: digit_char_is_digit)
  next
    case False
    with 1 show ?thesis by (subst str_nat.simps) (simp add: digit_char_is_digit)
  qed
qed

lemma decimal_value_snoc: "decimal_value (cs @ [ch]) = 10 * decimal_value cs + digit_value ch"
  by (simp add: decimal_value_def)

lemma decimal_value_str_nat: "decimal_value (str_nat n) = n"
proof (induction n rule: str_nat.induct)
  case (1 n)
  show ?case
  proof (cases "n < 10")
    case True
    then show ?thesis
      by (subst str_nat.simps) (simp add: decimal_value_def digit_char_value)
  next
    case False
    with 1 show ?thesis
      by (subst str_nat.simps) (simp add: decimal_value_snoc digit_char_value)
  qed
qed

lemma hd_str_nat: "0 < n \<Longrightarrow> hd (str_nat n) \<noteq> CHR ''0''"
proof (induction n rule: str_nat.induct)
  case (1 n)
  show ?case
  proof (cases "n < 10")
    case True
    with "1.prems" show ?thesis
      by (subst str_nat.simps) (simp add: digit_char_zero)
  next
    case False
    then have "0 < n div 10" by simp
    with 1 False have "hd (str_nat (n div 10)) \<noteq> CHR ''0''" by simp
    with False show ?thesis
      by (subst str_nat.simps) (simp add: str_nat_nonempty)
  qed
qed

lemma format_int_zero_iff: "format_int v = ''0'' \<longleftrightarrow> v = 0"
proof
  assume a: "format_int v = ''0''"
  show "v = 0"
  proof (cases "v < 0")
    case True
    with a show ?thesis by (simp add: format_int_def)
  next
    case False
    with a have "str_nat (nat v) = ''0''" by (simp add: format_int_def)
    then have "decimal_value (str_nat (nat v)) = decimal_value ''0''" by simp
    moreover have "decimal_value ''0'' = 0" by (simp add: decimal_value_def digit_value_def)
    ultimately have "nat v = 0" by (simp only: decimal_value_str_nat)
    with False show ?thesis by simp
  qed
next
  assume "v = 0"
  then show "format_int v = ''0''"
    by (simp add: format_int_def str_nat.simps digit_char_def)
qed

section \<open>The coordinator's methods\<close>

lemma getattr_simps:
  "map_of (attrs s) name = Some v \<Longrightarrow> getattr s name = Inr v"
  "map_of (attrs s) name = None \<Longrightarrow> getattr s name = Inl AttributeError"
  by (simp_all add: getattr_def)

lemma wf_root: "wf s \<Longrightarrow> map_of (attrs s) ''root'' = Some VTk"
  and wf_var: "wf s \<Longrightarrow> map_of (attrs s) ''countdown_var'' = Some VStringVar"
  and wf_parent: "wf s \<Longrightarrow> map_of (attrs s) ''parent'' = None"
  by (simp_all add: wf_def)

lemma attrs_setattr: "map_of (attrs (setattr k v s)) = (map_of (attrs s))(k \<mapsto> v)"
  by (simp add: setattr_def update_conv')

lemma setattr_fields [simp]:
  "pipes (setattr k v s) = pipes s" "procs (setattr k v s) = procs s"
  "var_text (setattr k v s) = var_text s" "after_queue (setattr k v s) = after_queue s"
  "destroyed (setattr k v s) = destroyed s"
  by (simp_all add: setattr_def)

lemma wf_Window_init: "wf Window_init"
  by code_simp

text \<open>
  In every state of a \<open>Window\<close>, \<open>do_countdown\<close> makes the pipe and the process, stores
  both, and then fails on \<open>self.parent\<close>.
\<close>

lemma do_countdown_raises:
  assumes "wf s"
  shows "Window_do_countdown s = (Some AttributeError,
     setattr ''countdown_thread'' (VProcess (length (procs s)))
       ((setattr ''gui_pipe'' (VConnection (length (pipes s)))
          (s\<lparr>pipes := pipes s @ [\<lparr>queue = [], writer_gone = False\<rparr>]\<rparr>))
        \<lparr>procs := procs s @ [started_worker 10 (length (pipes s))]\<rparr>))"
  using wf_parent [OF assms]
  by (simp add: Window_do_countdown_def Let_def call_after_def getattr_def attrs_setattr)

text \<open>
  Claim C1, on the code: the first click, in the state the constructor leaves. The pipe
  is created, the worker is started with \<open>10\<close> on that pipe, both references are stored;
  then the method raises \<open>AttributeError\<close> and no callback is registered.
\<close>

theorem do_countdown_first_click:
  "fst (Window_do_countdown Window_init) = Some AttributeError \<and>
   after_queue (snd (Window_do_countdown Window_init)) = [] \<and>
   map_of (attrs (snd (Window_do_countdown Window_init))) ''gui_pipe'' = Some (VConnection 0) \<and>
   map_of (attrs (snd (Window_do_countdown Window_init))) ''countdown_thread'' = Some (VProcess 0) \<and>
   pipes (snd (Window_do_countdown Window_init)) = [\<lparr>queue = [], writer_gone = False\<rparr>] \<and>
   procs (snd (Window_do_countdown Window_init)) = [started_worker 10 0]"
  by code_simp

text \<open>
  Claim C2, on the code: a poll that finds the pipe empty while the worker lives (here
  right after the first click, before the worker has sent anything) returns without an
  exception and leaves the whole state as it was; in particular no callback is registered.
\<close>

theorem update_empty_pipe_no_reschedule:
  "Window_update (snd (Window_do_countdown Window_init)) =
     (None, snd (Window_do_countdown Window_init)) \<and>
   after_queue (snd (Window_update (snd (Window_do_countdown Window_init)))) = []"
  by code_simp

text \<open>
  Claim C9: \<open>clear_countdown_label\<close> returns normally, leaves the displayed text empty and
  registers no callback; a second call changes nothing, and a call made when the text is
  already empty leaves the whole state as it was.
\<close>

theorem clear_countdown_label_idempotent:
  assumes "wf s"
  shows "fst (Window_clear_countdown_label s) = None \<and>
    var_text (snd (Window_clear_countdown_label s)) = '''' \<and>
    after_queue (snd (Window_clear_countdown_label s)) = after_queue s \<and>
    Window_clear_countdown_label (snd (Window_clear_countdown_label s)) =
      Window_clear_countdown_label s \<and>
    (var_text s = '''' \<longrightarrow> Window_clear_countdown_label s = (None, s))"
  using wf_var [OF assms]
  by (simp add: Window_clear_countdown_label_def call_set_def getattr_simps)

theorem clear_countdown_label_idempotent_witness:
  "wf Window_init \<and> var_text Window_init = '''' \<and>
   Window_clear_countdown_label Window_init = (None, Window_init) \<and>
   after_queue (snd (Window_clear_countdown_label Window_init)) = []"
proof -
  have e: "var_text Window_init = ''''" and q: "after_queue Window_init = []"
    by code_simp+
  from clear_countdown_label_idempotent [OF wf_Window_init] e q
  show ?thesis using wf_Window_init by simp
qed

lemma wf_gui_pipe:
  assumes "wf s" "map_of (attrs s) ''gui_pipe'' = Some (VConnection c)"
  obtains p where "map_of (attrs s) ''countdown_thread'' = Some (VProcess p)"
    "c < length (pipes s)" "p < length (procs s)" "pipe_out (procs s ! p) = c"
  using assms by (auto simp: wf_def split: option.splits pyval.splits)

lemma wf_pipe_out: "wf s \<Longrightarrow> q < length (procs s) \<Longrightarrow> pipe_out (procs s ! q) < length (pipes s)"
  by (simp add: wf_def list_all_length)


lemma process_join_fields [simp]:
  "attrs (process_join p s) = attrs s" "var_text (process_join p s) = var_text s"
  "after_queue (process_join p s) = after_queue s" "destroyed (process_join p s) = destroyed s"
  "length (pipes (process_join p s)) = length (pipes s)"
  "length (procs (process_join p s)) = length (procs s)"
  by (simp_all add: process_join_def run_to_exit_def close_writer_def set_proc_def Let_def)

lemma update_received_zero:
  assumes "map_of (attrs s) ''gui_pipe'' = Some (VConnection c)"
    and "map_of (attrs s) ''countdown_thread'' = Some (VProcess p)"
    and "map_of (attrs s) ''countdown_var'' = Some VStringVar"
    and "map_of (attrs s) ''root'' = Some VTk"
    and "queue (pipes s ! c) = 0 # rest"
  shows "Window_update s = (None,
    (process_join p (s\<lparr>pipes := (pipes s)[c := (pipes s ! c)\<lparr>queue := rest\<rparr>]\<rparr>))
      \<lparr>var_text := ''End!'',
       after_queue := after_queue s @ [(1000, Clear_countdown_label)]\<rparr>)"
  using assms
  by (simp add: Window_update_def getattr_simps call_join_def call_set_def call_after_def Let_def)

lemma update_received_nonzero:
  assumes "map_of (attrs s) ''gui_pipe'' = Some (VConnection c)"
    and "map_of (attrs s) ''countdown_var'' = Some VStringVar"
    and "map_of (attrs s) ''root'' = Some VTk"
    and "queue (pipes s ! c) = num # rest" and "num \<noteq> 0"
  shows "Window_update s = (None,
    s\<lparr>pipes := (pipes s)[c := (pipes s ! c)\<lparr>queue := rest\<rparr>],
      var_text := format_int num,
      after_queue := after_queue s @ [(100, Update)]\<rparr>)"
  using assms
  by (simp add: Window_update_def getattr_simps call_set_def call_after_def Let_def)



text \<open>
  Claim C8: a poll that receives a positive value \<open>v\<close> sets the displayed text to
  \<open>format_int v\<close>, which is the decimal numeral of \<open>v\<close>: it is not empty, consists of
  digits only (so it carries no sign), does not start with \<open>0\<close>, and reads back as \<open>v\<close>.
\<close>

theorem update_positive_shows_decimal:
  assumes "wf s"
    and "map_of (attrs s) ''gui_pipe'' = Some (VConnection c)"
    and "queue (pipes s ! c) = v # rest"
    and "0 < v"
  shows "fst (Window_update s) = None \<and>
    var_text (snd (Window_update s)) = format_int v \<and>
    format_int v \<noteq> [] \<and>
    list_all is_digit (format_int v) \<and>
    hd (format_int v) \<noteq> CHR ''0'' \<and>
    int (decimal_value (format_int v)) = v"
proof -
  have u: "Window_update s = (None,
    s\<lparr>pipes := (pipes s)[c := (pipes s ! c)\<lparr>queue := rest\<rparr>],
      var_text := format_int v,
      after_queue := after_queue s @ [(100, Update)]\<rparr>)"
    using assms(2) wf_var [OF assms(1)] wf_root [OF assms(1)] assms(3) assms(4)
    by (intro update_received_nonzero) simp_all
  have f: "format_int v = str_nat (nat v)" using assms(4) by (simp add: format_int_def)
  have "0 < nat v" using assms(4) by simp
  then have "hd (str_nat (nat v)) \<noteq> CHR ''0''" by (rule hd_str_nat)
  moreover have "int (decimal_value (str_nat (nat v))) = v"
    using assms(4) by (simp add: decimal_value_str_nat)
  ultimately show ?thesis unfolding u f
    by (simp add: str_nat_nonempty str_nat_digits)
qed

theorem update_positive_shows_decimal_witness:
  "wf (run [Click, Worker 0] Window_init) \<and>
   map_of (attrs (run [Click, Worker 0] Window_init)) ''gui_pipe'' = Some (VConnection 0) \<and>
   queue (pipes (run [Click, Worker 0] Window_init) ! 0) = [9] \<and>
   var_text (snd (Window_update (run [Click, Worker 0] Window_init))) = ''9''"
proof -
  have w: "wf (run [Click, Worker 0] Window_init)" by code_simp
  have g: "map_of (attrs (run [Click, Worker 0] Window_init)) ''gui_pipe'' = Some (VConnection 0)"
    by code_simp
  have q: "queue (pipes (run [Click, Worker 0] Window_init) ! 0) = [9]" by code_simp
  have f: "format_int 9 = ''9''" by code_simp
  from update_positive_shows_decimal [OF w g q] f w g q show ?thesis by simp
qed

lemma process_kill_fields [simp]:
  "attrs (process_kill p s) = attrs s" "var_text (process_kill p s) = var_text s"
  "after_queue (process_kill p s) = after_queue s" "destroyed (process_kill p s) = destroyed s"
  "length (pipes (process_kill p s)) = length (pipes s)"
  "procs (process_kill p s) = (procs s)[p := (procs s ! p)\<lparr>status := Killed\<rparr>]"
  by (simp_all add: process_kill_def close_writer_def set_proc_def)

lemma wf_thread_disj:
  assumes w: "wf s"
  shows "map_of (attrs s) ''countdown_thread'' = Some VNone \<or>
     (\<exists>p. map_of (attrs s) ''countdown_thread'' = Some (VProcess p) \<and> p < length (procs s))"
proof (cases "map_of (attrs s) ''gui_pipe''")
  case None
  with w show ?thesis by (simp add: wf_def)
next
  case g: (Some g)
  show ?thesis
  proof (cases g)
    case (VConnection c)
    show ?thesis
    proof (cases "map_of (attrs s) ''countdown_thread''")
      case None
      with w g VConnection show ?thesis by (simp add: wf_def)
    next
      case (Some t)
      with w g VConnection show ?thesis by (cases t) (simp_all add: wf_def)
    qed
  qed (use w g in \<open>simp_all add: wf_def\<close>)
qed

lemma wf_thread:
  assumes "wf s"
  obtains "map_of (attrs s) ''countdown_thread'' = Some VNone"
  | p where "map_of (attrs s) ''countdown_thread'' = Some (VProcess p)" "p < length (procs s)"
  using wf_thread_disj [OF assms] by blast

lemma on_close_result:
  assumes "wf s"
  shows "Window_on_close s = (None,
    (case map_of (attrs s) ''countdown_thread'' of
       Some (VProcess p) \<Rightarrow> if status (procs s ! p) = Alive then process_kill p s else s
     | _ \<Rightarrow> s)\<lparr>destroyed := True\<rparr>)"
  using assms
proof (cases rule: wf_thread)
  case 1
  then show ?thesis using wf_root [OF assms]
    by (simp add: Window_on_close_def kill_if_alive_def call_destroy_def getattr_simps)
next
  case (2 p)
  then show ?thesis using wf_root [OF assms]
    by (simp add: Window_on_close_def kill_if_alive_def call_destroy_def getattr_simps is_alive_def)
qed

text \<open>
  Claim C6: in every state of a \<open>Window\<close>, \<open>on_close\<close> returns without an exception, the
  root window is destroyed and no callback is registered. A process is killed exactly
  when it is the one \<open>countdown_thread\<close> refers to and it is alive; every other process
  keeps its status, and no handle is joined.
\<close>

theorem on_close_kills_alive_worker:
  assumes "wf s"
  shows "fst (Window_on_close s) = None \<and>
    destroyed (snd (Window_on_close s)) \<and>
    after_queue (snd (Window_on_close s)) = after_queue s \<and>
    length (procs (snd (Window_on_close s))) = length (procs s) \<and>
    (\<forall>q < length (procs s).
       joined (procs (snd (Window_on_close s)) ! q) = joined (procs s ! q) \<and>
       status (procs (snd (Window_on_close s)) ! q) =
         (if map_of (attrs s) ''countdown_thread'' = Some (VProcess q) \<and>
             status (procs s ! q) = Alive
          then Killed else status (procs s ! q)))"
  using assms
proof (cases rule: wf_thread)
  case 1
  then show ?thesis unfolding on_close_result [OF assms] by simp
next
  case (2 p)
  then show ?thesis unfolding on_close_result [OF assms]
    by (auto simp: nth_list_update)
qed

theorem on_close_kills_alive_worker_witness:
  "wf (run [Click, Worker 0] Window_init) \<and>
   status (procs (run [Click, Worker 0] Window_init) ! 0) = Alive \<and>
   fst (Window_on_close (run [Click, Worker 0] Window_init)) = None \<and>
   destroyed (snd (Window_on_close (run [Click, Worker 0] Window_init))) \<and>
   after_queue (snd (Window_on_close (run [Click, Worker 0] Window_init))) = [] \<and>
   status (procs (snd (Window_on_close (run [Click, Worker 0] Window_init))) ! 0) = Killed \<and>
   joined (procs (snd (Window_on_close (run [Click, Worker 0] Window_init))) ! 0) = False"
proof -
  let ?s = "run [Click, Worker 0] Window_init"
  have w: "wf ?s" by code_simp
  have t: "map_of (attrs ?s) ''countdown_thread'' = Some (VProcess 0)" by code_simp
  have a: "status (procs ?s ! 0) = Alive" by code_simp
  have j: "joined (procs ?s ! 0) = False" by code_simp
  have q: "after_queue ?s = []" by code_simp
  have l: "0 < length (procs ?s)" by code_simp
  from on_close_kills_alive_worker [OF w] l
  have "fst (Window_on_close ?s) = None"
    "destroyed (snd (Window_on_close ?s))"
    "after_queue (snd (Window_on_close ?s)) = after_queue ?s"
    "joined (procs (snd (Window_on_close ?s)) ! 0) = joined (procs ?s ! 0)"
    "status (procs (snd (Window_on_close ?s)) ! 0) =
       (if map_of (attrs ?s) ''countdown_thread'' = Some (VProcess 0) \<and>
           status (procs ?s ! 0) = Alive
        then Killed else status (procs ?s ! 0))"
    by blast+
  with w t a j q show ?thesis by simp
qed

text \<open>
  Claim C7: \<open>do_countdown\<close> has no guard. Called while \<open>gui_pipe\<close> and \<open>countdown_thread\<close>
  hold the pipe and the worker of an earlier countdown (whether that worker is still
  alive or has ended without being joined), it makes a new, empty pipe and starts a new
  worker on it: a process that is alive, not joined, sends on the new pipe and has all
  of \<open>decrement 10\<close> before it (the values 9 down to 0 and 0 again). The new references
  are stored over the old ones. Every earlier pipe and process stays as it was, so the
  earlier worker is neither joined nor killed, and \<open>gui_pipe\<close> and \<open>countdown_thread\<close>, the
  only attributes through which a method reaches a pipe or a process, no longer refer
  to them.
\<close>

theorem do_countdown_reentry_leaks:
  assumes "wf s"
    and "map_of (attrs s) ''gui_pipe'' = Some (VConnection c)"
    and "map_of (attrs s) ''countdown_thread'' = Some (VProcess p)"
  shows "map_of (attrs (snd (Window_do_countdown s))) ''gui_pipe'' =
      Some (VConnection (length (pipes s))) \<and>
    map_of (attrs (snd (Window_do_countdown s))) ''countdown_thread'' =
      Some (VProcess (length (procs s))) \<and>
    length (pipes s) \<noteq> c \<and> length (procs s) \<noteq> p \<and>
    pipes (snd (Window_do_countdown s)) = pipes s @ [\<lparr>queue = [], writer_gone = False\<rparr>] \<and>
    procs (snd (Window_do_countdown s)) =
      procs s @ [\<lparr>pending = decrement 10, pipe_out = length (pipes s),
                  status = Alive, joined = False\<rparr>] \<and>
    pipes (snd (Window_do_countdown s)) ! length (pipes s) = \<lparr>queue = [], writer_gone = False\<rparr> \<and>
    status (procs (snd (Window_do_countdown s)) ! length (procs s)) = Alive \<and>
    joined (procs (snd (Window_do_countdown s)) ! length (procs s)) = False \<and>
    pipe_out (procs (snd (Window_do_countdown s)) ! length (procs s)) = length (pipes s) \<and>
    pending (procs (snd (Window_do_countdown s)) ! length (procs s)) = decrement 10 \<and>
    sent (pending (procs (snd (Window_do_countdown s)) ! length (procs s))) =
      [9, 8, 7, 6, 5, 4, 3, 2, 1, 0, 0] \<and>
    pipes (snd (Window_do_countdown s)) ! c = pipes s ! c \<and>
    procs (snd (Window_do_countdown s)) ! p = procs s ! p \<and>
    status (procs (snd (Window_do_countdown s)) ! p) = status (procs s ! p) \<and>
    joined (procs (snd (Window_do_countdown s)) ! p) = joined (procs s ! p)"
proof -
  from assms(1,2) obtain p' where "map_of (attrs s) ''countdown_thread'' = Some (VProcess p')"
    and c: "c < length (pipes s)" and "p' < length (procs s)"
    by (rule wf_gui_pipe)
  with assms(3) have p: "p < length (procs s)" by simp
  have ten: "sent (decrement 10) = [9, 8, 7, 6, 5, 4, 3, 2, 1, 0, 0]"
    by (simp add: decrement_def decrement_loop.simps)
  show ?thesis unfolding do_countdown_raises [OF assms(1)]
    using c p by (simp add: attrs_setattr nth_append started_worker_def ten)
qed

text \<open>
  Two such states: right after the first click, with the first worker alive, and after
  that worker has done all it had to do and exited, its handle never joined.
\<close>

theorem do_countdown_reentry_leaks_witness:
  "wf (run [Click] Window_init) \<and>
   map_of (attrs (run [Click] Window_init)) ''gui_pipe'' = Some (VConnection 0) \<and>
   map_of (attrs (run [Click] Window_init)) ''countdown_thread'' = Some (VProcess 0) \<and>
   status (procs (run [Click] Window_init) ! 0) = Alive \<and>
   map_of (attrs (snd (Window_do_countdown (run [Click] Window_init)))) ''gui_pipe'' =
     Some (VConnection 1) \<and>
   map_of (attrs (snd (Window_do_countdown (run [Click] Window_init)))) ''countdown_thread'' =
     Some (VProcess 1) \<and>
   status (procs (snd (Window_do_countdown (run [Click] Window_init))) ! 1) = Alive \<and>
   pipe_out (procs (snd (Window_do_countdown (run [Click] Window_init))) ! 1) = 1 \<and>
   sent (pending (procs (snd (Window_do_countdown (run [Click] Window_init))) ! 1)) =
     [9, 8, 7, 6, 5, 4, 3, 2, 1, 0, 0] \<and>
   status (procs (snd (Window_do_countdown (run [Click] Window_init))) ! 0) = Alive \<and>
   joined (procs (snd (Window_do_countdown (run [Click] Window_init))) ! 0) = False \<and>
   wf (run (Click # replicate 22 (Worker 0)) Window_init) \<and>
   status (procs (run (Click # replicate 22 (Worker 0)) Window_init) ! 0) = Exited \<and>
   status (procs (snd (Window_do_countdown
     (run (Click # replicate 22 (Worker 0)) Window_init))) ! 0) = Exited \<and>
   joined (procs (snd (Window_do_countdown
     (run (Click # replicate 22 (Worker 0)) Window_init))) ! 0) = False \<and>
   status (procs (snd (Window_do_countdown
     (run (Click # replicate 22 (Worker 0)) Window_init))) ! 1) = Alive"
proof -
  let ?s = "run [Click] Window_init"
  let ?d = "run (Click # replicate 22 (Worker 0)) Window_init"
  have w: "wf ?s" by code_simp
  have g: "map_of (attrs ?s) ''gui_pipe'' = Some (VConnection 0)" by code_simp
  have t: "map_of (attrs ?s) ''countdown_thread'' = Some (VProcess 0)" by code_simp
  have a: "status (procs ?s ! 0) = Alive" by code_simp
  have j: "joined (procs ?s ! 0) = False" by code_simp
  have l: "length (pipes ?s) = 1" "length (procs ?s) = 1" by code_simp+
  from do_countdown_reentry_leaks [OF w g t]
  have r1: "map_of (attrs (snd (Window_do_countdown ?s))) ''gui_pipe'' =
      Some (VConnection (length (pipes ?s)))"
    and r2: "map_of (attrs (snd (Window_do_countdown ?s))) ''countdown_thread'' =
      Some (VProcess (length (procs ?s)))"
    and r3: "status (procs (snd (Window_do_countdown ?s)) ! length (procs ?s)) = Alive"
    and r4: "pipe_out (procs (snd (Window_do_countdown ?s)) ! length (procs ?s)) =
      length (pipes ?s)"
    and r5: "sent (pending (procs (snd (Window_do_countdown ?s)) ! length (procs ?s))) =
      [9, 8, 7, 6, 5, 4, 3, 2, 1, 0, 0]"
    and r6: "status (procs (snd (Window_do_countdown ?s)) ! 0) = status (procs ?s ! 0)"
    and r7: "joined (procs (snd (Window_do_countdown ?s)) ! 0) = joined (procs ?s ! 0)"
    by blast+
  have first: "map_of (attrs (snd (Window_do_countdown ?s))) ''gui_pipe'' =
      Some (VConnection 1) \<and>
    map_of (attrs (snd (Window_do_countdown ?s))) ''countdown_thread'' = Some (VProcess 1) \<and>
    status (procs (snd (Window_do_countdown ?s)) ! 1) = Alive \<and>
    pipe_out (procs (snd (Window_do_countdown ?s)) ! 1) = 1 \<and>
    sent (pending (procs (snd (Window_do_countdown ?s)) ! 1)) =
      [9, 8, 7, 6, 5, 4, 3, 2, 1, 0, 0] \<and>
    status (procs (snd (Window_do_countdown ?s)) ! 0) = Alive \<and>
    joined (procs (snd (Window_do_countdown ?s)) ! 0) = False"
    using r1 r2 r3 r4 r5 r6 r7 unfolding l a j by simp
  have wd: "wf ?d" by code_simp
  have gd: "map_of (attrs ?d) ''gui_pipe'' = Some (VConnection 0)" by code_simp
  have td: "map_of (attrs ?d) ''countdown_thread'' = Some (VProcess 0)" by code_simp
  have ad: "status (procs ?d ! 0) = Exited" by code_simp
  have jd: "joined (procs ?d ! 0) = False" by code_simp
  have ld: "length (procs ?d) = 1" by code_simp
  from do_countdown_reentry_leaks [OF wd gd td]
  have d1: "status (procs (snd (Window_do_countdown ?d)) ! 0) = status (procs ?d ! 0)"
    and d2: "joined (procs (snd (Window_do_countdown ?d)) ! 0) = joined (procs ?d ! 0)"
    and d3: "status (procs (snd (Window_do_countdown ?d)) ! length (procs ?d)) = Alive"
    by blast+
  have second: "status (procs (snd (Window_do_countdown ?d)) ! 0) = Exited \<and>
    joined (procs (snd (Window_do_countdown ?d)) ! 0) = False \<and>
    status (procs (snd (Window_do_countdown ?d)) ! 1) = Alive"
    using d1 d2 d3 unfolding ld ad jd by simp
  from w g t a first wd ad second show ?thesis by simp
qed

section \<open>The invariant is kept\<close>

text \<open>\<open>wf\<close> looks at the attributes, the number of pipes and the pipe of every process only.\<close>

lemma list_all_update:
  "list_all P xs \<Longrightarrow> (i < length xs \<Longrightarrow> P x) \<Longrightarrow> list_all P (xs[i := x])"
  by (induction xs arbitrary: i) (auto split: nat.splits)

lemma wf_cong:
  assumes a: "attrs s' = attrs s" and l: "length (pipes s') = length (pipes s)"
    and m: "map pipe_out (procs s') = map pipe_out (procs s)"
  shows "wf s' = wf s"
proof -
  have len: "length (procs s') = length (procs s)"
    using m by (metis length_map)
  have nth: "p < length (procs s) \<Longrightarrow> pipe_out (procs s' ! p) = pipe_out (procs s ! p)" for p
    using m len by (metis nth_map)
  have all: "list_all (\<lambda>pr. pipe_out pr < n) (procs s') =
             list_all (\<lambda>pr. pipe_out pr < n) (procs s)" for n
    using len nth by (simp add: list_all_length)
  show ?thesis
  proof (cases "map_of (attrs s) ''gui_pipe''")
    case None
    then show ?thesis by (simp add: wf_def a l all)
  next
    case g: (Some g)
    show ?thesis
    proof (cases g)
      case (VConnection c)
      show ?thesis
      proof (cases "map_of (attrs s) ''countdown_thread''")
        case None
        with g VConnection show ?thesis by (simp add: wf_def a l all)
      next
        case t: (Some t)
        show ?thesis
        proof (cases t)
          case (VProcess p)
          have "(c < length (pipes s) \<and> p < length (procs s) \<and> pipe_out (procs s' ! p) = c) =
                (c < length (pipes s) \<and> p < length (procs s) \<and> pipe_out (procs s ! p) = c)"
            using nth [of p] by auto
          with g VConnection t VProcess show ?thesis by (simp add: wf_def a all l len)
        qed (use g VConnection t in \<open>simp_all add: wf_def a l all\<close>)
      qed
    qed (use g in \<open>simp_all add: wf_def a l all\<close>)
  qed
qed

lemma map_pipe_out_update:
  "pipe_out pr = pipe_out (xs ! p) \<Longrightarrow> map pipe_out (xs[p := pr]) = map pipe_out xs"
  by (induction xs arbitrary: p) (auto split: nat.splits)

lemma wf_set_proc:
  "pipe_out pr = pipe_out (procs s ! p) \<Longrightarrow> wf (set_proc p pr s) = wf s"
  by (rule wf_cong) (simp_all add: set_proc_def map_pipe_out_update)

lemma wf_close_writer: "wf (close_writer c s) = wf s"
  by (rule wf_cong) (simp_all add: close_writer_def)

lemma wf_push: "wf (push c v s) = wf s"
  by (rule wf_cong) (simp_all add: push_def)

lemma wf_pipes_update: "wf (s\<lparr>pipes := (pipes s)[c := x]\<rparr>) = wf s"
  by (rule wf_cong) simp_all

lemma wf_other_fields:
  "wf (s\<lparr>var_text := txt\<rparr>) = wf s"
  "wf (s\<lparr>after_queue := q\<rparr>) = wf s"
  "wf (s\<lparr>destroyed := d\<rparr>) = wf s"
  by (rule wf_cong; simp)+

lemma wf_process_kill: "wf (process_kill p s) = wf s"
  by (simp add: process_kill_def wf_close_writer wf_set_proc)

lemma wf_run_to_exit: "wf (run_to_exit p s) = wf s"
  by (rule wf_cong) (simp_all add: run_to_exit_def Let_def close_writer_def map_pipe_out_update)

lemma wf_process_join: "wf (process_join p s) = wf s"
  by (simp add: process_join_def Let_def wf_set_proc wf_run_to_exit)

lemma wf_worker_step: "wf (worker_step p s) = wf s"
  by (simp add: worker_step_def Let_def wf_close_writer wf_push wf_set_proc
      split: list.splits worker_event.splits)

lemma wf_do_countdown:
  assumes "wf s" shows "wf (snd (Window_do_countdown s))"
proof -
  have "list_all (\<lambda>pr. pipe_out pr < Suc (length (pipes s))) (procs s)"
    using assms by (auto simp: wf_def list_all_iff)
  with assms show ?thesis
    unfolding do_countdown_raises [OF assms]
    by (simp add: wf_def attrs_setattr started_worker_def)
qed

lemma update_cases:
  assumes w: "wf s"
  obtains (unchanged) "snd (Window_update s) = s"
  | (zero) c p rest where "c < length (pipes s)" "p < length (procs s)"
      "queue (pipes s ! c) = 0 # rest"
      "snd (Window_update s) =
         (process_join p (s\<lparr>pipes := (pipes s)[c := (pipes s ! c)\<lparr>queue := rest\<rparr>]\<rparr>))
           \<lparr>var_text := ''End!'',
            after_queue := after_queue s @ [(1000, Clear_countdown_label)]\<rparr>"
  | (received) c num rest where "c < length (pipes s)" "num \<noteq> 0"
      "queue (pipes s ! c) = num # rest"
      "snd (Window_update s) =
         s\<lparr>pipes := (pipes s)[c := (pipes s ! c)\<lparr>queue := rest\<rparr>],
           var_text := format_int num,
           after_queue := after_queue s @ [(100, Update)]\<rparr>"
proof (cases "map_of (attrs s) ''gui_pipe''")
  case None
  then have "snd (Window_update s) = s"
    by (simp add: Window_update_def getattr_simps)
  then show ?thesis by (rule unchanged)
next
  case g: (Some g)
  show ?thesis
  proof (cases g)
    case (VConnection c)
    with g have gc: "map_of (attrs s) ''gui_pipe'' = Some (VConnection c)" by simp
    from w gc obtain p where t: "map_of (attrs s) ''countdown_thread'' = Some (VProcess p)"
      and c: "c < length (pipes s)" and p: "p < length (procs s)"
      by (rule wf_gui_pipe)
    show ?thesis
    proof (cases "queue (pipes s ! c)")
      case Nil
      with gc have "snd (Window_update s) = s"
        by (simp add: Window_update_def getattr_simps)
      then show ?thesis by (rule unchanged)
    next
      case (Cons num rest)
      show ?thesis
      proof (cases "num = 0")
        case True
        with Cons have q: "queue (pipes s ! c) = 0 # rest" by simp
        from update_received_zero [OF gc t wf_var [OF w] wf_root [OF w] q]
        show ?thesis using c p q by (intro zero [of c p rest]) simp_all
      next
        case False
        from update_received_nonzero [OF gc wf_var [OF w] wf_root [OF w] Cons False]
        show ?thesis using c False Cons by (intro received [of c num rest]) simp_all
      qed
    qed
  qed (use g w in \<open>simp_all add: wf_def\<close>)
qed

lemma wf_update:
  assumes "wf s" shows "wf (snd (Window_update s))"
  using assms
proof (cases rule: update_cases)
  case unchanged
  with assms show ?thesis by simp
next
  case (zero c p rest)
  with assms show ?thesis
    by (simp add: wf_other_fields wf_process_join wf_pipes_update)
next
  case (received c num rest)
  with assms show ?thesis
    by (simp add: wf_other_fields wf_pipes_update)
qed

lemma clear_result:
  assumes "wf s"
  shows "Window_clear_countdown_label s = (None, s\<lparr>var_text := ''''\<rparr>)"
  using wf_var [OF assms]
  by (simp add: Window_clear_countdown_label_def call_set_def getattr_simps)

lemma wf_clear: "wf s \<Longrightarrow> wf (snd (Window_clear_countdown_label s))"
  by (simp add: clear_result wf_other_fields)

lemma wf_on_close:
  assumes "wf s" shows "wf (snd (Window_on_close s))"
  using assms
proof (cases rule: wf_thread)
  case 1
  with assms show ?thesis
    unfolding on_close_result [OF assms] by (simp add: wf_other_fields)
next
  case (2 p)
  with assms show ?thesis
    unfolding on_close_result [OF assms] by (simp add: wf_other_fields wf_process_kill)
qed

lemma wf_fire:
  assumes "wf s" shows "wf (fire ev s)"
proof (cases ev)
  case (Fire cb)
  with assms show ?thesis by (cases cb) (simp_all add: wf_update wf_clear)
qed (use assms in \<open>simp_all add: wf_do_countdown wf_on_close wf_worker_step\<close>)

text \<open>The values in transit stay non-negative.\<close>

lemma nonneg_fields [simp]:
  "nonneg_traffic (s\<lparr>var_text := txt\<rparr>) = nonneg_traffic s"
  "nonneg_traffic (s\<lparr>after_queue := q\<rparr>) = nonneg_traffic s"
  "nonneg_traffic (s\<lparr>destroyed := d\<rparr>) = nonneg_traffic s"
  "nonneg_traffic (setattr k v s) = nonneg_traffic s"
  by (simp_all add: nonneg_traffic_def)

lemma nonneg_queue:
  "nonneg_traffic s \<Longrightarrow> c < length (pipes s) \<Longrightarrow> list_all (\<lambda>v. 0 \<le> v) (queue (pipes s ! c))"
  by (simp add: nonneg_traffic_def list_all_length)

lemma nonneg_pending:
  "nonneg_traffic s \<Longrightarrow> p < length (procs s) \<Longrightarrow>
   list_all (\<lambda>v. 0 \<le> v) (sent (pending (procs s ! p)))"
  by (simp add: nonneg_traffic_def list_all_length)

lemma nonneg_pipes_update:
  assumes "nonneg_traffic s"
    and "c < length (pipes s) \<Longrightarrow> list_all (\<lambda>v. 0 \<le> v) (queue x)"
  shows "nonneg_traffic (s\<lparr>pipes := (pipes s)[c := x]\<rparr>)"
  using assms by (simp add: nonneg_traffic_def list_all_update)

lemma nonneg_set_proc:
  assumes "nonneg_traffic s"
    and "p < length (procs s) \<Longrightarrow> list_all (\<lambda>v. 0 \<le> v) (sent (pending pr))"
  shows "nonneg_traffic (set_proc p pr s)"
  using assms by (simp add: nonneg_traffic_def set_proc_def list_all_update)

lemma nonneg_close_writer: "nonneg_traffic s \<Longrightarrow> nonneg_traffic (close_writer c s)"
  unfolding close_writer_def
  by (rule nonneg_pipes_update) (simp_all add: nonneg_queue)

lemma nonneg_push: "nonneg_traffic s \<Longrightarrow> 0 \<le> v \<Longrightarrow> nonneg_traffic (push c v s)"
  unfolding push_def
  by (rule nonneg_pipes_update) (simp_all add: nonneg_queue)

lemma nonneg_process_kill:
  "nonneg_traffic s \<Longrightarrow> nonneg_traffic (process_kill p s)"
  unfolding process_kill_def
  by (intro nonneg_close_writer nonneg_set_proc) (simp_all add: nonneg_pending)

lemma nonneg_run_to_exit:
  assumes "nonneg_traffic s" "p < length (procs s)"
  shows "nonneg_traffic (run_to_exit p s)"
proof -
  let ?pr = "procs s ! p"
  let ?c = "pipe_out ?pr"
  have 1: "nonneg_traffic (s\<lparr>pipes := (pipes s)[?c := (pipes s ! ?c)\<lparr>queue := queue (pipes s ! ?c) @ sent (pending ?pr)\<rparr>]\<rparr>)"
    using assms by (intro nonneg_pipes_update) (simp_all add: nonneg_queue nonneg_pending)
  have 2: "nonneg_traffic (set_proc p (?pr\<lparr>pending := [], status := Exited\<rparr>)
      (s\<lparr>pipes := (pipes s)[?c := (pipes s ! ?c)\<lparr>queue := queue (pipes s ! ?c) @ sent (pending ?pr)\<rparr>]\<rparr>))"
    using 1 by (rule nonneg_set_proc) simp
  have "run_to_exit p s = close_writer ?c (set_proc p (?pr\<lparr>pending := [], status := Exited\<rparr>)
      (s\<lparr>pipes := (pipes s)[?c := (pipes s ! ?c)\<lparr>queue := queue (pipes s ! ?c) @ sent (pending ?pr)\<rparr>]\<rparr>))"
    by (simp add: run_to_exit_def Let_def set_proc_def)
  with 2 show ?thesis by (simp add: nonneg_close_writer)
qed

lemma length_procs_run_to_exit [simp]: "length (procs (run_to_exit p s)) = length (procs s)"
  by (simp add: run_to_exit_def Let_def close_writer_def)

lemma nonneg_process_join:
  assumes "nonneg_traffic s" "p < length (procs s)"
  shows "nonneg_traffic (process_join p s)"
proof (cases "status (procs s ! p) = Alive")
  case True
  have r: "nonneg_traffic (run_to_exit p s)" using assms by (rule nonneg_run_to_exit)
  then have "nonneg_traffic (set_proc p ((procs (run_to_exit p s) ! p)\<lparr>joined := True\<rparr>) (run_to_exit p s))"
    by (rule nonneg_set_proc) (simp add: nonneg_pending [OF r])
  with True show ?thesis by (simp add: process_join_def Let_def)
next
  case False
  have "nonneg_traffic (set_proc p ((procs s ! p)\<lparr>joined := True\<rparr>) s)"
    using assms(1) by (rule nonneg_set_proc) (simp add: nonneg_pending assms)
  with False show ?thesis by (simp add: process_join_def Let_def)
qed

lemma sent_Cons_nonneg:
  "list_all (\<lambda>v. 0 \<le> v) (sent (e # es)) \<Longrightarrow> list_all (\<lambda>v. 0 \<le> v) (sent es)"
  by (cases e) simp_all

lemma nonneg_worker_step:
  assumes "nonneg_traffic s"
  shows "nonneg_traffic (worker_step p s)"
proof (cases "p < length (procs s) \<and> status (procs s ! p) = Alive")
  case False
  with assms show ?thesis by (auto simp: worker_step_def)
next
  case True
  then have p: "p < length (procs s)" by simp
  have pend: "list_all (\<lambda>v. 0 \<le> v) (sent (pending (procs s ! p)))"
    using assms p by (rule nonneg_pending)
  show ?thesis
  proof (cases "pending (procs s ! p)")
    case Nil
    have "nonneg_traffic (set_proc p ((procs s ! p)\<lparr>status := Exited\<rparr>) s)"
      using assms by (rule nonneg_set_proc) (simp add: pend)
    with True Nil show ?thesis by (simp add: worker_step_def Let_def nonneg_close_writer)
  next
    case (Cons e es)
    have es: "list_all (\<lambda>v. 0 \<le> v) (sent es)"
      using pend Cons by (auto dest: sent_Cons_nonneg)
    have sp: "nonneg_traffic (set_proc p ((procs s ! p)\<lparr>pending := es\<rparr>) s)"
      using assms by (rule nonneg_set_proc) (simp add: es)
    show ?thesis
    proof (cases e)
      case (Send v)
      with pend Cons have "0 \<le> v" by simp
      with sp True Cons Send show ?thesis by (simp add: worker_step_def Let_def nonneg_push)
    next
      case Sleep_half_second
      with sp True Cons show ?thesis by (simp add: worker_step_def Let_def)
    qed
  qed
qed

lemma sent_decrement_nonneg: "list_all (\<lambda>v. 0 \<le> v) (sent (decrement n))"
  by (simp add: sent_decrement countdown_nonneg)

lemma nonneg_do_countdown:
  assumes "wf s" "nonneg_traffic s"
  shows "nonneg_traffic (snd (Window_do_countdown s))"
  using assms(2) unfolding do_countdown_raises [OF assms(1)]
  by (simp add: nonneg_traffic_def started_worker_def sent_decrement_nonneg)

lemma nonneg_update:
  assumes "wf s" "nonneg_traffic s"
  shows "nonneg_traffic (snd (Window_update s))"
  using assms(1)
proof (cases rule: update_cases)
  case unchanged
  with assms show ?thesis by simp
next
  case (zero c p rest)
  have "list_all (\<lambda>v. 0 \<le> v) (queue (pipes s ! c))"
    using assms(2) zero(1) by (rule nonneg_queue)
  with zero(3) have r: "list_all (\<lambda>v. 0 \<le> v) rest" by simp
  have "nonneg_traffic (s\<lparr>pipes := (pipes s)[c := (pipes s ! c)\<lparr>queue := rest\<rparr>]\<rparr>)"
    using assms(2) by (rule nonneg_pipes_update) (simp add: r)
  then have "nonneg_traffic (process_join p (s\<lparr>pipes := (pipes s)[c := (pipes s ! c)\<lparr>queue := rest\<rparr>]\<rparr>))"
    by (rule nonneg_process_join) (simp add: zero(2))
  with zero(4) show ?thesis by simp
next
  case (received c num rest)
  have "list_all (\<lambda>v. 0 \<le> v) (queue (pipes s ! c))"
    using assms(2) received(1) by (rule nonneg_queue)
  with received(3) have r: "list_all (\<lambda>v. 0 \<le> v) rest" by simp
  have "nonneg_traffic (s\<lparr>pipes := (pipes s)[c := (pipes s ! c)\<lparr>queue := rest\<rparr>]\<rparr>)"
    using assms(2) by (rule nonneg_pipes_update) (simp add: r)
  with received(4) show ?thesis by simp
qed

lemma nonneg_on_close:
  assumes "wf s" "nonneg_traffic s"
  shows "nonneg_traffic (snd (Window_on_close s))"
  using assms(1)
proof (cases rule: wf_thread)
  case 1
  with assms show ?thesis unfolding on_close_result [OF assms(1)] by simp
next
  case (2 p)
  with assms show ?thesis
    unfolding on_close_result [OF assms(1)] by (simp add: nonneg_process_kill)
qed

lemma nonneg_fire:
  assumes "wf s" "nonneg_traffic s"
  shows "nonneg_traffic (fire ev s)"
proof (cases ev)
  case (Fire cb)
  with assms show ?thesis by (cases cb) (simp_all add: nonneg_update clear_result)
qed (use assms in \<open>simp_all add: nonneg_do_countdown nonneg_on_close nonneg_worker_step\<close>)

text \<open>The displayed text.\<close>

lemma displayable_not_zero:
  assumes "displayable txt" shows "txt \<noteq> ''0''"
proof
  assume z: "txt = ''0''"
  with assms obtain v where "0 < v" "format_int v = ''0''"
    by (auto simp: displayable_def)
  then show False by (simp add: format_int_zero_iff)
qed

lemma var_text_worker_step [simp]: "var_text (worker_step p s) = var_text s"
  by (simp add: worker_step_def Let_def close_writer_def push_def set_proc_def
      split: list.splits worker_event.splits)

lemma displayable_update:
  assumes "wf s" "nonneg_traffic s" "displayable (var_text s)"
  shows "displayable (var_text (snd (Window_update s)))"
  using assms(1)
proof (cases rule: update_cases)
  case unchanged
  with assms show ?thesis by simp
next
  case (zero c p rest)
  then show ?thesis by (simp add: displayable_def)
next
  case (received c num rest)
  have "list_all (\<lambda>v. 0 \<le> v) (queue (pipes s ! c))"
    using assms(2) received(1) by (rule nonneg_queue)
  with received(2,3) have "0 < num" by simp
  with received(4) show ?thesis by (auto simp: displayable_def)
qed

lemma displayable_fire:
  assumes "wf s" "nonneg_traffic s" "displayable (var_text s)"
  shows "displayable (var_text (fire ev s))"
proof (cases ev)
  case Click
  with assms show ?thesis by (simp add: do_countdown_raises)
next
  case (Fire cb)
  show ?thesis
  proof (cases cb)
    case Update
    with Fire displayable_update [OF assms] show ?thesis by simp
  next
    case Clear_countdown_label
    with Fire assms(1) show ?thesis by (simp add: clear_result displayable_def)
  qed
next
  case Close
  with assms show ?thesis
    by (cases rule: wf_thread [OF assms(1)]) (simp_all add: on_close_result)
next
  case (Worker p)
  with assms show ?thesis by simp
qed

lemma run_snoc: "run (evs @ [ev]) s = fire ev (run evs s)"
  by (simp add: run_def)

lemma invariant_run:
  "wf (run evs Window_init) \<and> nonneg_traffic (run evs Window_init) \<and>
   displayable (var_text (run evs Window_init))"
proof (induction evs rule: rev_induct)
  case Nil
  have "nonneg_traffic Window_init" "displayable (var_text Window_init)"
    by (simp_all add: Window_init_def fresh_state_def nonneg_traffic_def displayable_def)
  then show ?case by (simp add: run_def wf_Window_init)
next
  case (snoc ev evs)
  then show ?case
    by (simp add: run_snoc wf_fire nonneg_fire displayable_fire)
qed

text \<open>
  Claim C10: whatever happens to the program after the \<open>Window\<close> is made (clicks, timer
  callbacks, closing, steps of the workers, in any order and number), the displayed text
  is never \<open>0\<close>: it is empty, or \<open>End!\<close>, or the decimal numeral of a value greater than
  zero. The values in the pipes come from the workers and are never negative, and a
  received \<open>0\<close> takes the \<open>End!\<close> branch.
\<close>

theorem displayed_text_never_zero:
  "var_text (run evs Window_init) \<noteq> ''0'' \<and>
   (var_text (run evs Window_init) = '''' \<or>
    var_text (run evs Window_init) = ''End!'' \<or>
    (\<exists>v. 0 < v \<and> var_text (run evs Window_init) = format_int v))"
proof -
  have d: "displayable (var_text (run evs Window_init))"
    using invariant_run [of evs] by simp
  from d have "var_text (run evs Window_init) \<noteq> ''0''" by (rule displayable_not_zero)
  with d show ?thesis by (simp add: displayable_def)
qed

theorem displayed_text_never_zero_witness:
  "var_text (run (zero_waiting @ [Fire Update]) Window_init) = ''End!'' \<and>
   var_text (run (zero_waiting @ [Fire Update]) Window_init) \<noteq> ''0''"
proof -
  have e: "var_text (run (zero_waiting @ [Fire Update]) Window_init) = ''End!''"
    by code_simp
  from displayed_text_never_zero [of "zero_waiting @ [Fire Update]"] e show ?thesis by simp
qed

end
